theory Spec2Isabelle
  imports Main "HOL-Library.Word"
begin

section \<open>JavaScript strings\<close>

text \<open>
  A JavaScript string is a sequence of 16-bit code units; \<open>length\<close>, the regular
  expressions without the \<open>u\<close> flag and \<open>trim\<close> all count and test code units.
  A buffer is a sequence of bytes.
\<close>

type_synonym jschar = "16 word"
type_synonym jsstring = "jschar list"
type_synonym byte = "8 word"
type_synonym bytes = "byte list"

definition js :: "string \<Rightarrow> jsstring" where
  \<comment> \<open>an ASCII literal of the source as code units\<close>
  "js s = map of_char s"

definition is_digit :: "jschar \<Rightarrow> bool" where
  \<comment> \<open>the regular expression class \<open>\d\<close>: 0 to 9 only\<close>
  "is_digit c = (0x30 \<le> c \<and> c \<le> 0x39)"

definition is_line_terminator :: "jschar \<Rightarrow> bool" where
  \<comment> \<open>LF, CR, LS, PS: the code units that \<open>.\<close> does not match\<close>
  "is_line_terminator c = (c = 0x0A \<or> c = 0x0D \<or> c = 0x2028 \<or> c = 0x2029)"

definition is_white_space :: "jschar \<Rightarrow> bool" where
  \<comment> \<open>what \<open>String.prototype.trim\<close> strips: WhiteSpace and LineTerminator\<close>
  "is_white_space c =
     (c = 0x09 \<or> c = 0x0B \<or> c = 0x0C \<or> c = 0x20 \<or> c = 0xA0 \<or> c = 0x1680 \<or>
      (0x2000 \<le> c \<and> c \<le> 0x200A) \<or> c = 0x202F \<or> c = 0x205F \<or> c = 0x3000 \<or>
      c = 0xFEFF \<or> is_line_terminator c)"

definition trim :: "jsstring \<Rightarrow> jsstring" where
  "trim s = rev (dropWhile is_white_space (rev (dropWhile is_white_space s)))"

definition or_default :: "jsstring option \<Rightarrow> jsstring \<Rightarrow> jsstring" where
  \<comment> \<open>\<open>process.env.X || d\<close>: an unset or empty variable gives the default\<close>
  "or_default v d = (case v of None \<Rightarrow> d | Some s \<Rightarrow> if s = [] then d else s)"

fun digits_of_nat :: "nat \<Rightarrow> jsstring" where
  "digits_of_nat n =
     (if n < 10 then [of_nat (48 + n)]
      else digits_of_nat (n div 10) @ [of_nat (48 + n mod 10)])"

declare digits_of_nat.simps [simp del]

definition show_code :: "int option \<Rightarrow> jsstring" where
  \<comment> \<open>\<open>`${code}`\<close> of an exit code: \<open>null\<close> when the child was ended by a signal\<close>
  "show_code c =
     (case c of None \<Rightarrow> js ''null''
      | Some i \<Rightarrow> if i < 0 then js ''-'' @ digits_of_nat (nat (- i)) else digits_of_nat (nat i))"

section \<open>Parsing the subprocess's standard output (index.js, lines 94 to 106)\<close>

text \<open>
  \<open>d.toString().split(/\n+/)\<close>: the pieces between maximal runs of line feeds; a chunk
  that starts or ends with a line feed gives an empty first or last piece, which
  \<open>filter(Boolean)\<close> then drops.
\<close>

function split_nl :: "jsstring \<Rightarrow> jsstring \<Rightarrow> jsstring list" where
  "split_nl cur [] = [cur]"
| "split_nl cur (c # cs) =
     (if c = 0x0A then cur # split_nl [] (dropWhile (\<lambda>x. x = 0x0A) cs)
      else split_nl (cur @ [c]) cs)"
  by pat_completeness auto
termination
  by (relation "measure (\<lambda>(cur, s). length s)") (auto simp: less_Suc_eq_le length_dropWhile_le)

definition chunk_lines :: "jsstring \<Rightarrow> jsstring list" where
  "chunk_lines d = filter (\<lambda>l. l \<noteq> []) (split_nl [] d)"

definition PROGRESS :: jsstring where
  "PROGRESS = js ''PROGRESS ''"

fun strip_prefix :: "jsstring \<Rightarrow> jsstring \<Rightarrow> jsstring option" where
  "strip_prefix [] s = Some s"
| "strip_prefix (p # ps) [] = None"
| "strip_prefix (p # ps) (c # cs) = (if p = c then strip_prefix ps cs else None)"

definition capture_digits :: "jsstring \<Rightarrow> jsstring" where
  \<comment> \<open>the greedy group \<open>(\d{1,3})\<close>: up to three leading digits\<close>
  "capture_digits s = take 3 (takeWhile is_digit s)"

definition match_here :: "jsstring \<Rightarrow> jsstring option" where
  "match_here s =
     (case strip_prefix PROGRESS s of
        None \<Rightarrow> None
      | Some rest \<Rightarrow> if capture_digits rest = [] then None else Some (capture_digits rest))"

fun match_progress :: "jsstring \<Rightarrow> jsstring option" where
  \<comment> \<open>\<open>line.match(/PROGRESS (\d{1,3})/)\<close>: the group of the leftmost match\<close>
  "match_progress [] = None"
| "match_progress (c # cs) =
     (case match_here (c # cs) of Some m \<Rightarrow> Some m | None \<Rightarrow> match_progress cs)"

definition parseInt :: "jsstring \<Rightarrow> int" where
  \<comment> \<open>\<open>parseInt(m[1], 10)\<close> on a string of decimal digits\<close>
  "parseInt ds = foldl (\<lambda>acc c. 10 * acc + (uint c - 48)) 0 ds"

definition line_pct :: "jsstring \<Rightarrow> int option" where
  \<comment> \<open>\<open>Math.min(100, parseInt(m[1], 10))\<close> when the line matches\<close>
  "line_pct line = map_option (\<lambda>m. min 100 (parseInt m)) (match_progress line)"

section \<open>The job registry (index.js, line 25 and lines 78 to 126)\<close>

datatype status = Processing | Done | Error

record job =
  status :: status
  progress :: int
  result :: "jsstring option"
  error :: "jsstring option"

type_synonym registry = "jsstring \<rightharpoonup> job"

definition new_job :: job where
  \<comment> \<open>\<open>{ status: 'processing', progress: 0, result: null, error: null }\<close>\<close>
  "new_job = \<lparr>status = Processing, progress = 0, result = None, error = None\<rparr>"

definition set_progress :: "jsstring \<Rightarrow> int \<Rightarrow> registry \<Rightarrow> registry" where
  \<comment> \<open>\<open>if (job && job.status === 'processing') job.progress = pct\<close>\<close>
  "set_progress jobId pct jobs =
     (case jobs jobId of
        None \<Rightarrow> jobs
      | Some job \<Rightarrow>
          if status job = Processing then jobs(jobId \<mapsto> job\<lparr>progress := pct\<rparr>) else jobs)"

definition on_line :: "jsstring \<Rightarrow> registry \<Rightarrow> jsstring \<Rightarrow> registry" where
  "on_line jobId jobs line =
     (case line_pct line of None \<Rightarrow> jobs | Some pct \<Rightarrow> set_progress jobId pct jobs)"

definition on_stdout :: "jsstring \<Rightarrow> jsstring \<Rightarrow> registry \<Rightarrow> registry" where
  \<comment> \<open>the \<open>ps.stdout.on('data', ...)\<close> handler of the job \<open>jobId\<close>\<close>
  "on_stdout jobId d jobs = foldl (on_line jobId) jobs (chunk_lines d)"

definition on_close ::
  "jsstring \<Rightarrow> jsstring \<Rightarrow> int option \<Rightarrow> jsstring + jsstring \<Rightarrow> registry \<Rightarrow> registry" where
  \<comment> \<open>the \<open>ps.on('close', ...)\<close> handler: \<open>err\<close> is the text accumulated from the child's
      standard error, \<open>rd\<close> what \<open>readFile(outPath, 'utf8')\<close> gives (\<open>Inl\<close> the message
      of its failure)\<close>
  "on_close jobId err code rd jobs =
     (case jobs jobId of
        None \<Rightarrow> jobs
      | Some job \<Rightarrow>
          if code = Some 0 then
            (case rd of
               Inr text \<Rightarrow>
                 jobs(jobId \<mapsto> job\<lparr>status := Done, progress := 100, result := Some (trim text)\<rparr>)
             | Inl msg \<Rightarrow> jobs(jobId \<mapsto> job\<lparr>status := Error, error := Some msg\<rparr>))
          else
            jobs(jobId \<mapsto> job\<lparr>status := Error,
              error := Some (if err \<noteq> [] then err else js ''exit code '' @ show_code code)\<rparr>))"

section \<open>POST /api/transcribe (index.js, lines 61 to 131)\<close>

record upload =
  mimetype :: jsstring
  originalname :: jsstring
  buffer :: bytes

definition okMimes :: "jsstring list" where
  "okMimes = map js [''audio/mpeg'', ''audio/mp3'', ''audio/wav'', ''audio/x-wav'',
     ''audio/wave'', ''audio/x-pn-wav'']"

definition toLowerCase :: "jsstring \<Rightarrow> jsstring" where
  \<comment> \<open>on the letters A to Z; no other code unit lower-cases to a letter of \<open>local\<close>\<close>
  "toLowerCase s = map (\<lambda>c. if 0x41 \<le> c \<and> c \<le> 0x5A then c + 0x20 else c) s"

text \<open>The temporary files, \<open>join(tmpdir(), ...)\<close>, by the template that names them.\<close>

datatype tmp_path =
    InPath jsstring jsstring  \<comment> \<open>\<open>in-${jobId}-${originalname}\<close>\<close>
  | OutPath jsstring  \<comment> \<open>\<open>out-${jobId}.txt\<close>\<close>
  | AudioPath int jsstring  \<comment> \<open>\<open>audio-${Date.now()}-${filename}\<close>\<close>
  | TransPath int  \<comment> \<open>\<open>trans-${Date.now()}.txt\<close>\<close>

datatype arg = Lit jsstring | Tmp tmp_path | Script

text \<open>What a handler does to the world outside the registry, in the order it does it.\<close>

datatype action =
    CallWhisper bytes jsstring  \<comment> \<open>\<open>createWhisperTranscription(buf, originalname)\<close>\<close>
  | WriteFile tmp_path bytes
  | Spawn jsstring "arg list"
  | ReadFile tmp_path
  | Unlink tmp_path bool  \<comment> \<open>with whether the deletion succeeded\<close>

datatype response =
    BadRequest jsstring  \<comment> \<open>status 400, \<open>{ error }\<close>\<close>
  | Transcribed jsstring  \<comment> \<open>\<open>{ text, mode: 'api', done: true }\<close>\<close>
  | Accepted jsstring  \<comment> \<open>\<open>{ jobId, mode: 'local', done: false }\<close>\<close>
  | ServerError jsstring  \<comment> \<open>status 500, \<open>{ error }\<close>\<close>

record env =
  WHISPER_MODE :: "jsstring option"
  PYTHON_EXEC :: "jsstring option"
  LOCAL_WHISPER_MODEL :: "jsstring option"
  LOCAL_DEVICE :: "jsstring option"
  LOCAL_COMPUTE :: "jsstring option"

text \<open>
  What the calls of one request give: the transcription service (\<open>Inl\<close> the message of
  the error it throws), \<open>randomUUID()\<close>, and \<open>writeFile\<close> (\<open>Some\<close> the message of its
  failure).
\<close>

record world =
  whisper :: "bytes \<Rightarrow> jsstring \<Rightarrow> jsstring + jsstring"
  uuid :: jsstring
  write_error :: "jsstring option"

text \<open>
  The server's state: the registry, and for each child process that is running the text
  its \<open>stderr\<close> variable has accumulated. The handlers of a child exist from \<open>spawn\<close> to
  its \<open>close\<close> event, which Node emits once, after the child's streams have ended.
\<close>

record server =
  jobs :: registry
  procs :: "jsstring \<rightharpoonup> jsstring"

definition missing_audio :: jsstring where
  "missing_audio = [0x7F3A, 0x5C11] @ js '' audio '' @ [0x6A94, 0x6848]"

definition only_mp3_wav :: jsstring where
  "only_mp3_wav = [0x50C5, 0x652F, 0x63F4] @ js '' mp3 '' @ [0x6216] @ js '' wav''"

definition spawn_args :: "env \<Rightarrow> tmp_path \<Rightarrow> tmp_path \<Rightarrow> arg list" where
  "spawn_args e inp out =
     [Tmp inp, Tmp out,
      Lit (or_default (LOCAL_WHISPER_MODEL e) (js ''large-v3-turbo'')),
      Lit (or_default (LOCAL_DEVICE e) (js ''cpu'')),
      Lit (or_default (LOCAL_COMPUTE e) (js ''int8''))]"

definition post_transcribe ::
  "env \<Rightarrow> world \<Rightarrow> upload option \<Rightarrow> server \<Rightarrow> response \<times> action list \<times> server" where
  \<comment> \<open>The response the client receives, the actions and the new state. When \<open>writeFile\<close>
      fails the \<open>catch\<close> block runs after \<open>res.json\<close> has answered: its
      \<open>res.status(500).json\<close> cannot send a second response, and it does not touch the
      job.\<close>
  "post_transcribe e w file s =
     (case file of
        None \<Rightarrow> (BadRequest missing_audio, [], s)
      | Some f \<Rightarrow>
          if mimetype f \<notin> set okMimes then (BadRequest only_mp3_wav, [], s)
          else if toLowerCase (or_default (WHISPER_MODE e) (js ''api'')) \<noteq> js ''local'' then
            (case whisper w (buffer f) (originalname f) of
               Inr txt \<Rightarrow> (Transcribed txt, [CallWhisper (buffer f) (originalname f)], s)
             | Inl msg \<Rightarrow>
                 (ServerError (if msg = [] then js ''Unknown error'' else msg),
                  [CallWhisper (buffer f) (originalname f)], s))
          else
            (let jobId = uuid w;
                 s1 = s\<lparr>jobs := (jobs s)(jobId \<mapsto> new_job)\<rparr>;
                 wavPath = InPath jobId (originalname f);
                 outPath = OutPath jobId
             in case write_error w of
                  Some msg \<Rightarrow> (Accepted jobId, [WriteFile wavPath (buffer f)], s1)
                | None \<Rightarrow>
                    (Accepted jobId,
                     [WriteFile wavPath (buffer f),
                      Spawn (or_default (PYTHON_EXEC e) (js ''python''))
                        (Script # spawn_args e wavPath outPath)],
                     s1\<lparr>procs := (procs s1)(jobId \<mapsto> [])\<rparr>)))"

section \<open>The server as a transition system\<close>

datatype event =
    Post env world "upload option"
  | Stdout jsstring jsstring  \<comment> \<open>a chunk on the standard output of the child of a job\<close>
  | Stderr jsstring jsstring
  | Close jsstring "int option" "jsstring + jsstring"
      \<comment> \<open>the exit code and what \<open>readFile(outPath)\<close> gives\<close>

fun step :: "server \<Rightarrow> event \<Rightarrow> server" where
  "step s (Post e w file) = snd (snd (post_transcribe e w file s))"
| "step s (Stdout jobId d) =
     (case procs s jobId of
        None \<Rightarrow> s
      | Some err \<Rightarrow> s\<lparr>jobs := on_stdout jobId d (jobs s)\<rparr>)"
| "step s (Stderr jobId d) =
     (case procs s jobId of
        None \<Rightarrow> s
      | Some err \<Rightarrow> s\<lparr>procs := (procs s)(jobId \<mapsto> err @ d)\<rparr>)"
| "step s (Close jobId code rd) =
     (case procs s jobId of
        None \<Rightarrow> s
      | Some err \<Rightarrow>
          s\<lparr>jobs := on_close jobId err code rd (jobs s), procs := (procs s)(jobId := None)\<rparr>)"

definition start :: server where
  "start = \<lparr>jobs = Map.empty, procs = Map.empty\<rparr>"

definition run :: "event list \<Rightarrow> server" where
  "run evs = foldl step start evs"

fun created :: "event \<Rightarrow> jsstring list" where
  \<comment> \<open>the identifier \<open>randomUUID()\<close> gave, when the request registers a job\<close>
  "created (Post e w file) =
     (case fst (post_transcribe e w file start) of Accepted i \<Rightarrow> [i] | _ \<Rightarrow> [])"
| "created _ = []"

definition fresh_ids :: "event list \<Rightarrow> bool" where
  \<comment> \<open>\<open>randomUUID()\<close> never gives the same identifier twice\<close>
  "fresh_ids evs = distinct (concat (map created evs))"

section \<open>The synchronous local transcription (whisper.js, \<open>transcribeLocal\<close>)\<close>

record local_world =
  now_audio :: int
  now_out :: int
  lw_write_error :: "jsstring option"
  exit_code :: "int option"
  stderr_chunks :: "jsstring list"
  read_result :: "jsstring + jsstring"
  unlink_audio_ok :: bool
  unlink_out_ok :: bool

definition transcribeLocal ::
  "env \<Rightarrow> local_world \<Rightarrow> bytes \<Rightarrow> jsstring \<Rightarrow> (jsstring + jsstring) \<times> action list" where
  \<comment> \<open>\<open>Inl\<close> is the message of the error the call throws\<close>
  "transcribeLocal e w fileBuffer filename =
     (let tmpAudio = AudioPath (now_audio w) filename;
          tmpOut = TransPath (now_out w);
          wr = WriteFile tmpAudio fileBuffer;
          sp = Spawn (or_default (PYTHON_EXEC e) (js ''python''))
                 (Lit (js ''-u'') # Script # spawn_args e tmpAudio tmpOut);
          stderr = concat (stderr_chunks w)
      in case lw_write_error w of
           Some msg \<Rightarrow> (Inl msg, [wr])
         | None \<Rightarrow>
             if exit_code w \<noteq> Some 0 then
               (Inl (if stderr \<noteq> [] then stderr
                     else js ''python exited '' @ show_code (exit_code w)),
                [wr, sp])
             else
               (let text = (case read_result w of Inr t \<Rightarrow> t | Inl msg \<Rightarrow> [])
                in (Inr (trim text),
                    [wr, sp, ReadFile tmpOut,
                     Unlink tmpAudio (unlink_audio_ok w), Unlink tmpOut (unlink_out_ok w)])))"

section \<open>The credential store (keys.js)\<close>

text \<open>
  The primitives of Node's \<open>crypto\<close> and the UTF-8 codec of \<open>Buffer\<close> are parameters:
  \<open>sha256\<close> is \<open>createHash('sha256').update(s).digest()\<close>, \<open>aes_encrypt key iv\<close> is the
  \<open>update\<close> and \<open>final\<close> of \<open>createCipheriv('aes-256-cbc', key, iv)\<close>, and \<open>aes_decrypt\<close>
  those of \<open>createDecipheriv\<close>, \<open>None\<close> where it throws.
\<close>

record crypto =
  sha256 :: "bytes \<Rightarrow> bytes"
  aes_encrypt :: "bytes \<Rightarrow> bytes \<Rightarrow> bytes \<Rightarrow> bytes"
  aes_decrypt :: "bytes \<Rightarrow> bytes \<Rightarrow> bytes \<Rightarrow> bytes option"
  utf8_encode :: "jsstring \<Rightarrow> bytes"
  utf8_decode :: "bytes \<Rightarrow> jsstring"

definition hex_digit :: "nat \<Rightarrow> jschar" where
  "hex_digit n = (if n < 10 then of_nat (48 + n) else of_nat (87 + n))"

definition toHex :: "bytes \<Rightarrow> jsstring" where
  \<comment> \<open>\<open>buf.toString('hex')\<close>: two lower-case digits for each byte\<close>
  "toHex bs = concat (map (\<lambda>b. [hex_digit (unat b div 16), hex_digit (unat b mod 16)]) bs)"

definition hex_val :: "jschar \<Rightarrow> nat option" where
  "hex_val c =
     (if 0x30 \<le> c \<and> c \<le> 0x39 then Some (unat c - 48)
      else if 0x61 \<le> c \<and> c \<le> 0x66 then Some (unat c - 87)
      else if 0x41 \<le> c \<and> c \<le> 0x46 then Some (unat c - 55)
      else None)"

fun fromHex :: "jsstring \<Rightarrow> bytes" where
  \<comment> \<open>\<open>Buffer.from(s, 'hex')\<close>: decoding stops at the first pair that is not hexadecimal\<close>
  "fromHex (a # b # cs) =
     (case hex_val a of
        None \<Rightarrow> []
      | Some h \<Rightarrow> (case hex_val b of None \<Rightarrow> [] | Some l \<Rightarrow> of_nat (16 * h + l) # fromHex cs))"
| "fromHex cs = []"

fun split_on :: "jschar \<Rightarrow> jsstring \<Rightarrow> jsstring \<Rightarrow> jsstring list" where
  \<comment> \<open>\<open>s.split(sep)\<close> for a separator of one code unit, the piece so far in \<open>cur\<close>\<close>
  "split_on sep cur [] = [cur]"
| "split_on sep cur (c # cs) =
     (if c = sep then cur # split_on sep [] cs else split_on sep (cur @ [c]) cs)"

datatype key_error =
    TypeError  \<comment> \<open>a call on a value that is not a string\<close>
  | DecipherError  \<comment> \<open>thrown by \<open>createDecipheriv\<close> or \<open>decipher.final\<close>\<close>

definition encrypt :: "crypto \<Rightarrow> jsstring \<Rightarrow> bytes \<Rightarrow> jsstring \<Rightarrow> jsstring" where
  \<comment> \<open>\<open>iv\<close> is what \<open>crypto.randomBytes(16)\<close> gave\<close>
  "encrypt cr secret iv text =
     (let key = sha256 cr (utf8_encode cr secret);
          enc = aes_encrypt cr key iv (utf8_encode cr text)
      in toHex iv @ [0x3A] @ toHex enc)"

definition decrypt :: "crypto \<Rightarrow> jsstring \<Rightarrow> jsstring \<Rightarrow> key_error + jsstring" where
  \<comment> \<open>without a colon \<open>dataHex\<close> is undefined and \<open>Buffer.from\<close> throws\<close>
  "decrypt cr secret payload =
     (case split_on 0x3A [] payload of
        ivHex # dataHex # rest \<Rightarrow>
          (let iv = fromHex ivHex;
               data = fromHex dataHex;
               key = sha256 cr (utf8_encode cr secret)
           in case aes_decrypt cr key iv data of
                None \<Rightarrow> Inl DecipherError
              | Some dec \<Rightarrow> Inr (utf8_decode cr dec))
      | _ \<Rightarrow> Inl TypeError)"

text \<open>
  \<open>db.data.keys\<close> is an ordinary object whose own properties are the stored ciphertexts.
  A read finds an own property first and then the members of \<open>Object.prototype\<close>; an
  assignment creates or overwrites an own property, except for \<open>__proto__\<close>, whose
  inherited setter ignores a value that is not an object. \<open>db.read()\<close> and \<open>db.write()\<close>
  load and save the own properties.
\<close>

type_synonym keys = "jsstring \<rightharpoonup> jsstring"

datatype jsval = Undefined | Str jsstring | Inherited

definition object_prototype :: "jsstring list" where
  "object_prototype = map js [''__proto__'', ''constructor'', ''hasOwnProperty'',
     ''isPrototypeOf'', ''propertyIsEnumerable'', ''toLocaleString'', ''toString'',
     ''valueOf'', ''__defineGetter__'', ''__defineSetter__'', ''__lookupGetter__'',
     ''__lookupSetter__'']"

definition get_prop :: "keys \<Rightarrow> jsstring \<Rightarrow> jsval" where
  "get_prop ks name =
     (case ks name of
        Some v \<Rightarrow> Str v
      | None \<Rightarrow> if name \<in> set object_prototype then Inherited else Undefined)"

definition set_prop :: "keys \<Rightarrow> jsstring \<Rightarrow> jsstring \<Rightarrow> keys" where
  "set_prop ks name v = (if name = js ''__proto__'' then ks else ks(name \<mapsto> v))"

definition setKey :: "crypto \<Rightarrow> jsstring \<Rightarrow> bytes \<Rightarrow> jsstring \<Rightarrow> jsstring \<Rightarrow> keys \<Rightarrow> keys" where
  "setKey cr secret iv provider apiKey ks = set_prop ks provider (encrypt cr secret iv apiKey)"

fun mask :: "jsstring \<Rightarrow> jsstring" where
  \<comment> \<open>\<open>key.replace(/.(?=.{4})/g, '*')\<close>: a code unit is replaced when it and the four
      after it are all matched by \<open>.\<close>\<close>
  "mask [] = []"
| "mask (c # cs) =
     (if \<not> is_line_terminator c \<and> 4 \<le> length cs \<and>
         list_all (\<lambda>x. \<not> is_line_terminator x) (take 4 cs)
      then 0x2A else c) # mask cs"

definition getKey ::
  "crypto \<Rightarrow> jsstring \<Rightarrow> jsstring \<Rightarrow> bool \<Rightarrow> keys \<Rightarrow> key_error + jsstring option" where
  \<comment> \<open>\<open>Inr None\<close> is \<open>null\<close>; \<open>!enc\<close> holds for undefined and for the empty string\<close>
  "getKey cr secret provider masked ks =
     (case get_prop ks provider of
        Undefined \<Rightarrow> Inr None
      | Inherited \<Rightarrow> Inl TypeError
      | Str enc \<Rightarrow>
          if enc = [] then Inr None
          else (case decrypt cr secret enc of
                  Inl e \<Rightarrow> Inl e
                | Inr key \<Rightarrow> Inr (Some (if masked then mask key else key))))"

section \<open>Auxiliary notions for the statements\<close>

definition stdout_lines :: "jsstring list \<Rightarrow> jsstring list" where
  \<comment> \<open>the lines the handler sees in a sequence of chunks\<close>
  "stdout_lines ds = concat (map chunk_lines ds)"

definition pcts :: "jsstring list \<Rightarrow> int list" where
  \<comment> \<open>the percentages of the lines that match, in order\<close>
  "pcts ls = concat (map (\<lambda>l. case line_pct l of None \<Rightarrow> [] | Some p \<Rightarrow> [p]) ls)"

definition feed :: "jsstring \<Rightarrow> registry \<Rightarrow> jsstring list \<Rightarrow> registry" where
  \<comment> \<open>the \<open>data\<close> handler of a job run on a sequence of chunks\<close>
  "feed jobId r ds = foldl (\<lambda>r d. on_stdout jobId d r) r ds"

definition whole_chunk :: "jsstring list \<Rightarrow> jsstring" where
  \<comment> \<open>a chunk made of whole lines, each ended by its line feed\<close>
  "whole_chunk ls = concat (map (\<lambda>l. l @ [0x0A]) ls)"

definition whole_lines :: "jsstring list list \<Rightarrow> bool" where
  \<comment> \<open>no line has a line feed inside\<close>
  "whole_lines lss = list_all (\<lambda>l. 0x0A \<notin> set l) (concat lss)"

fun is_child_event :: "event \<Rightarrow> bool" where
  "is_child_event (Post e w file) = False"
| "is_child_event _ = True"

definition job_ok :: "job \<Rightarrow> bool" where
  "job_ok j = (0 \<le> progress j \<and> progress j \<le> 100 \<and> (status j = Done \<longrightarrow> progress j = 100))"

definition reg_ok :: "registry \<Rightarrow> bool" where
  "reg_ok r = (\<forall>i j. r i = Some j \<longrightarrow> job_ok j)"

definition live_ok :: "server \<Rightarrow> bool" where
  \<comment> \<open>a running child belongs to a job that is still processing\<close>
  "live_ok s = (\<forall>i. procs s i \<noteq> None \<longrightarrow> (\<exists>j. jobs s i = Some j \<and> status j = Processing))"

subsection \<open>Concrete inputs\<close>

definition local_env :: env where
  "local_env = \<lparr>WHISPER_MODE = Some (js ''LOCAL''), PYTHON_EXEC = None,
     LOCAL_WHISPER_MODEL = None, LOCAL_DEVICE = None, LOCAL_COMPUTE = None\<rparr>"

definition ok_world :: world where
  "ok_world = \<lparr>whisper = (\<lambda>buf name. Inr (js ''hello'')), uuid = js ''job-1'',
     write_error = None\<rparr>"

definition full_disk :: world where
  "full_disk = \<lparr>whisper = (\<lambda>buf name. Inr (js ''hello'')), uuid = js ''job-1'',
     write_error = Some (js ''ENOSPC'')\<rparr>"

definition wav_upload :: upload where
  "wav_upload = \<lparr>mimetype = js ''audio/wav'', originalname = js ''a.wav'',
     buffer = [0x52, 0x49, 0x46, 0x46]\<rparr>"

definition ogg_upload :: upload where
  "ogg_upload = \<lparr>mimetype = js ''audio/ogg'', originalname = js ''a.ogg'',
     buffer = [0x4F, 0x67, 0x67, 0x53]\<rparr>"

definition exit_one :: local_world where
  "exit_one = \<lparr>now_audio = 1000, now_out = 1001, lw_write_error = None,
     exit_code = Some 1, stderr_chunks = [js ''boom''], read_result = Inl (js ''ENOENT''),
     unlink_audio_ok = True, unlink_out_ok = True\<rparr>"

definition no_output :: local_world where
  "no_output = \<lparr>now_audio = 1000, now_out = 1001, lw_write_error = None,
     exit_code = Some 0, stderr_chunks = [], read_result = Inl (js ''ENOENT''),
     unlink_audio_ok = True, unlink_out_ok = False\<rparr>"

definition shift_cipher :: crypto where
  \<comment> \<open>an invertible stand-in for the cipher, to instantiate the parameters\<close>
  "shift_cipher = \<lparr>sha256 = (\<lambda>m. m), aes_encrypt = (\<lambda>k iv m. map (\<lambda>b. b + 1) m),
     aes_decrypt = (\<lambda>k iv d. Some (map (\<lambda>b. b - 1) d)),
     utf8_encode = map ucast, utf8_decode = map ucast\<rparr>"

definition done_job :: job where
  "done_job = \<lparr>status = Done, progress = 100, result = Some (js ''done text''), error = None\<rparr>"

lemmas eval_simps =
  run_def start_def post_transcribe_def okMimes_def js_def toLowerCase_def or_default_def
  on_stdout_def chunk_lines_def on_line_def line_pct_def match_here_def PROGRESS_def
  capture_digits_def is_digit_def parseInt_def set_progress_def new_job_def on_close_def
  local_env_def ok_world_def full_disk_def wav_upload_def ogg_upload_def trim_def
  is_white_space_def is_line_terminator_def Let_def

section \<open>Lemmas\<close>

subsection \<open>The parsed percentage\<close>

lemma is_digit_uint: "is_digit c \<Longrightarrow> 48 \<le> uint c"
  by (simp add: is_digit_def word_le_def)

lemma foldl_digits_nonneg:
  "0 \<le> a \<Longrightarrow> list_all is_digit ds \<Longrightarrow>
     0 \<le> foldl (\<lambda>acc c. 10 * acc + (uint c - 48)) a ds"
proof (induction ds arbitrary: a)
  case Nil
  then show ?case by simp
next
  case (Cons d ds)
  from Cons.prems have "48 \<le> uint d" by (simp add: is_digit_uint)
  with Cons.prems have "0 \<le> 10 * a + (uint d - 48)" by simp
  with Cons show ?case by simp
qed

lemma parseInt_nonneg: "list_all is_digit ds \<Longrightarrow> 0 \<le> parseInt ds"
  by (simp add: parseInt_def foldl_digits_nonneg)

lemma capture_digits_all: "list_all is_digit (capture_digits s)"
proof -
  have "set (take 3 (takeWhile is_digit s)) \<subseteq> set (takeWhile is_digit s)"
    by (rule set_take_subset)
  then show ?thesis
    by (auto simp: capture_digits_def list_all_iff dest: set_takeWhileD)
qed

lemma match_here_digits: "match_here s = Some m \<Longrightarrow> list_all is_digit m"
  by (auto simp: match_here_def capture_digits_all split: option.splits if_splits)

lemma match_progress_digits: "match_progress s = Some m \<Longrightarrow> list_all is_digit m"
  by (induction s) (auto split: option.splits dest: match_here_digits)

lemma line_pct_range: "line_pct l = Some p \<Longrightarrow> 0 \<le> p \<and> p \<le> 100"
  by (auto simp: line_pct_def dest!: match_progress_digits parseInt_nonneg)

subsection \<open>The handlers touch one job, and only while it is processing\<close>

lemma set_progress_other: "i \<noteq> k \<Longrightarrow> set_progress k p r i = r i"
  by (simp add: set_progress_def split: option.splits)

lemma on_line_other: "i \<noteq> k \<Longrightarrow> on_line k r l i = r i"
  by (simp add: on_line_def set_progress_other split: option.splits)

lemma foldl_on_line_other: "i \<noteq> k \<Longrightarrow> foldl (on_line k) r ls i = r i"
  by (induction ls arbitrary: r) (simp_all add: on_line_other)

lemma on_stdout_other: "i \<noteq> k \<Longrightarrow> on_stdout k d r i = r i"
  by (simp add: on_stdout_def foldl_on_line_other)

lemma on_close_other: "i \<noteq> k \<Longrightarrow> on_close k err c rd r i = r i"
  by (simp add: on_close_def split: option.splits sum.splits)

lemma set_progress_terminal:
  "r k = Some j \<Longrightarrow> status j \<noteq> Processing \<Longrightarrow> set_progress k p r = r"
  by (simp add: set_progress_def)

lemma on_line_terminal:
  "r k = Some j \<Longrightarrow> status j \<noteq> Processing \<Longrightarrow> on_line k r l = r"
  by (simp add: on_line_def set_progress_terminal split: option.splits)

lemma foldl_on_line_terminal:
  "r k = Some j \<Longrightarrow> status j \<noteq> Processing \<Longrightarrow> foldl (on_line k) r ls = r"
  by (induction ls) (simp_all add: on_line_terminal)

lemma on_stdout_terminal:
  "r k = Some j \<Longrightarrow> status j \<noteq> Processing \<Longrightarrow> on_stdout k d r = r"
  by (simp add: on_stdout_def foldl_on_line_terminal)

subsection \<open>Invariants of the registry\<close>

lemma set_progress_ok:
  "reg_ok r \<Longrightarrow> 0 \<le> p \<Longrightarrow> p \<le> 100 \<Longrightarrow> reg_ok (set_progress k p r)"
  by (auto simp: reg_ok_def job_ok_def set_progress_def split: option.splits if_splits)

lemma on_line_ok: "reg_ok r \<Longrightarrow> reg_ok (on_line k r l)"
  by (auto simp: on_line_def split: option.splits dest: line_pct_range intro: set_progress_ok)

lemma foldl_on_line_ok: "reg_ok r \<Longrightarrow> reg_ok (foldl (on_line k) r ls)"
  by (induction ls arbitrary: r) (simp_all add: on_line_ok)

lemma on_stdout_ok: "reg_ok r \<Longrightarrow> reg_ok (on_stdout k d r)"
  by (simp add: on_stdout_def foldl_on_line_ok)

lemma on_close_ok: "reg_ok r \<Longrightarrow> reg_ok (on_close k err c rd r)"
  by (auto simp: reg_ok_def job_ok_def on_close_def split: option.splits sum.splits if_splits)

lemma post_cases:
  "step s (Post e w f) = s \<or>
   (created (Post e w f) = [uuid w] \<and>
    jobs (step s (Post e w f)) = (jobs s)(uuid w \<mapsto> new_job) \<and>
    (procs (step s (Post e w f)) = procs s \<or>
     procs (step s (Post e w f)) = (procs s)(uuid w \<mapsto> [])))"
  by (simp add: post_transcribe_def Let_def split: option.splits sum.splits)

lemma step_ok: "reg_ok (jobs s) \<Longrightarrow> reg_ok (jobs (step s ev))"
proof (cases ev)
  case (Post e w f)
  assume ok: "reg_ok (jobs s)"
  have "job_ok new_job" by (simp add: job_ok_def new_job_def)
  with ok have "reg_ok ((jobs s)(uuid w \<mapsto> new_job))" by (simp add: reg_ok_def)
  with ok post_cases [of s e w f] Post show ?thesis by auto
qed (auto simp: on_stdout_ok on_close_ok split: option.splits)

lemma foldl_step_ok: "reg_ok (jobs s) \<Longrightarrow> reg_ok (jobs (foldl step s evs))"
  by (induction evs arbitrary: s) (simp_all add: step_ok)

lemma run_ok: "reg_ok (jobs (run evs))"
  unfolding run_def by (rule foldl_step_ok) (simp add: start_def reg_ok_def)

lemma set_progress_status:
  "map_option status (set_progress k p r i) = map_option status (r i)"
  by (simp add: set_progress_def split: option.splits)

lemma on_line_status: "map_option status (on_line k r l i) = map_option status (r i)"
  by (simp add: on_line_def set_progress_status split: option.splits)

lemma foldl_on_line_status:
  "map_option status (foldl (on_line k) r ls i) = map_option status (r i)"
  by (induction ls arbitrary: r) (simp_all add: on_line_status)

lemma on_stdout_status: "map_option status (on_stdout k d r i) = map_option status (r i)"
  by (simp add: on_stdout_def foldl_on_line_status)

lemma on_stdout_processing:
  assumes "r i = Some j" and "status j = Processing"
  shows "\<exists>j'. on_stdout k d r i = Some j' \<and> status j' = Processing"
proof -
  from assms have "map_option status (on_stdout k d r i) = Some Processing"
    by (simp add: on_stdout_status)
  then show ?thesis by auto
qed

lemma post_step_cases:
  obtains (Same) "step s (Post e w f) = s"
  | (New) "created (Post e w f) = [uuid w]"
      and "jobs (step s (Post e w f)) = (jobs s)(uuid w \<mapsto> new_job)"
      and "procs (step s (Post e w f)) = procs s \<or>
           procs (step s (Post e w f)) = (procs s)(uuid w \<mapsto> [])"
  using post_cases [of s e w f] by blast

lemma step_live_ok: "live_ok s \<Longrightarrow> live_ok (step s ev)"
proof (cases ev)
  case (Post e w f)
  assume ok: "live_ok s"
  show ?thesis unfolding Post
  proof (cases rule: post_step_cases [of s e w f])
    case Same
    with ok show "live_ok (step s (Post e w f))" by simp
  next
    case New
    with ok show "live_ok (step s (Post e w f))"
      by (auto simp: live_ok_def new_job_def simp del: step.simps created.simps)
  qed
next
  case (Stdout k d)
  assume "live_ok s"
  then show ?thesis using Stdout
    by (auto simp: live_ok_def split: option.splits intro: on_stdout_processing)
next
  case (Stderr k d)
  assume "live_ok s"
  then show ?thesis using Stderr
    by (auto simp: live_ok_def split: option.splits)
next
  case (Close k c rd)
  assume "live_ok s"
  then show ?thesis using Close
    by (auto simp: live_ok_def on_close_other split: option.splits)
qed

lemma foldl_step_live_ok: "live_ok s \<Longrightarrow> live_ok (foldl step s evs)"
  by (induction evs arbitrary: s) (simp_all add: step_live_ok)

lemma run_live_ok: "live_ok (run evs)"
  unfolding run_def by (rule foldl_step_live_ok) (simp add: live_ok_def start_def)

lemma step_dom: "dom (jobs (step s ev)) \<subseteq> dom (jobs s) \<union> set (created ev)"
proof (cases ev)
  case (Post e w f)
  show ?thesis unfolding Post
    by (cases rule: post_step_cases [of s e w f])
      (auto simp del: step.simps created.simps)
next
  case (Stdout k d)
  have "\<And>i. on_stdout k d (jobs s) i \<noteq> None \<Longrightarrow> jobs s i \<noteq> None"
    using on_stdout_status [of k d "jobs s"] by (metis map_option_is_None)
  with Stdout show ?thesis by (auto split: option.splits)
next
  case (Stderr k d)
  then show ?thesis by (auto split: option.splits)
next
  case (Close k c rd)
  have "\<And>i. on_close k err c rd (jobs s) i \<noteq> None \<Longrightarrow> jobs s i \<noteq> None" for err
    by (auto simp: on_close_def split: option.splits sum.splits if_splits)
  with Close show ?thesis by (auto split: option.splits)
qed

lemma foldl_step_dom:
  "dom (jobs (foldl step s evs)) \<subseteq> dom (jobs s) \<union> set (concat (map created evs))"
proof (induction evs arbitrary: s)
  case Nil
  then show ?case by simp
next
  case (Cons ev evs)
  from Cons.IH [of "step s ev"] step_dom [of s ev] show ?case by auto
qed

lemma run_dom: "dom (jobs (run evs)) \<subseteq> set (concat (map created evs))"
  using foldl_step_dom [of start evs] by (simp add: run_def start_def)

lemma step_settled:
  assumes "jobs s i = Some j" and "procs s i = None" and "i \<notin> set (created ev)"
  shows "jobs (step s ev) i = Some j \<and> procs (step s ev) i = None"
proof (cases ev)
  case (Post e w f)
  show ?thesis using assms unfolding Post
    by (cases rule: post_step_cases [of s e w f])
      (auto simp del: step.simps created.simps)
next
  case (Stdout k d)
  with assms show ?thesis by (cases "k = i") (auto simp: on_stdout_other split: option.splits)
next
  case (Stderr k d)
  with assms show ?thesis by (auto split: option.splits)
next
  case (Close k c rd)
  with assms show ?thesis by (cases "k = i") (auto simp: on_close_other split: option.splits)
qed

lemma foldl_step_settled:
  "jobs s i = Some j \<Longrightarrow> procs s i = None \<Longrightarrow> i \<notin> set (concat (map created evs)) \<Longrightarrow>
     jobs (foldl step s evs) i = Some j \<and> procs (foldl step s evs) i = None"
proof (induction evs arbitrary: s)
  case Nil
  then show ?case by simp
next
  case (Cons ev evs)
  from Cons.prems have "jobs (step s ev) i = Some j \<and> procs (step s ev) i = None"
    by (intro step_settled) auto
  with Cons show ?case by simp
qed

lemma terminal_forever:
  assumes fresh: "fresh_ids (evs1 @ evs2)"
    and at: "jobs (run evs1) i = Some j" and fin: "status j \<noteq> Processing"
  shows "jobs (run (evs1 @ evs2)) i = Some j"
proof -
  from at run_dom [of evs1] have "i \<in> set (concat (map created evs1))" by auto
  with fresh have notin: "i \<notin> set (concat (map created evs2))"
    by (auto simp: fresh_ids_def)
  from run_live_ok [of evs1] at fin have "procs (run evs1) i = None"
    by (auto simp: live_ok_def)
  with at notin have "jobs (foldl step (run evs1) evs2) i = Some j"
    using foldl_step_settled by blast
  then show ?thesis by (simp add: run_def)
qed

subsection \<open>The last matching line decides the progress\<close>

lemma pcts_append: "pcts (xs @ ys) = pcts xs @ pcts ys"
  by (simp add: pcts_def)

lemma stdout_lines_append: "stdout_lines (xs @ ys) = stdout_lines xs @ stdout_lines ys"
  by (simp add: stdout_lines_def)

lemma feed_lines: "feed i r ds = foldl (on_line i) r (stdout_lines ds)"
  by (induction ds arbitrary: r) (simp_all add: feed_def stdout_lines_def on_stdout_def)

lemma last_write_wins:
  "r i = Some j \<Longrightarrow> status j = Processing \<Longrightarrow>
     foldl (on_line i) r ls i = Some (j\<lparr>progress := last (progress j # pcts ls)\<rparr>)"
proof (induction ls arbitrary: r j)
  case Nil
  then show ?case by (simp add: pcts_def)
next
  case (Cons l ls)
  show ?case
  proof (cases "line_pct l")
    case None
    with Cons show ?thesis by (simp add: on_line_def pcts_def)
  next
    case (Some p)
    let ?j = "j\<lparr>progress := p\<rparr>"
    from Some Cons.prems have "on_line i r l i = Some ?j"
      by (simp add: on_line_def set_progress_def)
    moreover have "status ?j = Processing" using Cons.prems by simp
    ultimately have "foldl (on_line i) (on_line i r l) ls i
        = Some (?j\<lparr>progress := last (progress ?j # pcts ls)\<rparr>)"
      by (rule Cons.IH)
    with Some show ?thesis by (simp add: pcts_def)
  qed
qed

lemma sorted_last_prefix:
  fixes p :: int
  assumes "sorted (p # xs @ ys)"
  shows "last (p # xs) \<le> last (p # xs @ ys)"
proof (cases "ys = []")
  case True
  then show ?thesis by simp
next
  case False
  then have "last (p # xs @ ys) = last ys" by simp
  moreover from False have "last ys \<in> set ys" by simp
  moreover have "last (p # xs) \<in> set (p # xs)" by (rule last_in_set) simp
  moreover from assms have "\<forall>x \<in> set (p # xs). \<forall>y \<in> set ys. x \<le> y"
    using sorted_append [of "p # xs" ys] by simp
  ultimately show ?thesis by metis
qed

lemma split_nl_line: "0x0A \<notin> set l \<Longrightarrow> split_nl cur (l @ rest) = split_nl (cur @ l) rest"
  by (induction l arbitrary: cur) auto

lemma chunk_lines_skip:
  "filter (\<lambda>l. l \<noteq> []) (split_nl [] (dropWhile (\<lambda>x. x = 0x0A) rest))
     = filter (\<lambda>l. l \<noteq> []) (split_nl [] rest)"
  by (cases rest) auto

lemma chunk_lines_line:
  assumes "0x0A \<notin> set l"
  shows "chunk_lines (l @ 0x0A # rest) = (if l = [] then [] else [l]) @ chunk_lines rest"
proof -
  from assms have "split_nl [] (l @ 0x0A # rest)
      = l # split_nl [] (dropWhile (\<lambda>x. x = 0x0A) rest)"
    using split_nl_line [of l "[]" "0x0A # rest"] by simp
  then show ?thesis by (simp add: chunk_lines_def chunk_lines_skip)
qed

lemma chunk_lines_whole:
  "list_all (\<lambda>l. 0x0A \<notin> set l) ls \<Longrightarrow>
     chunk_lines (whole_chunk ls) = filter (\<lambda>l. l \<noteq> []) ls"
proof (induction ls)
  case Nil
  then show ?case by (simp add: whole_chunk_def chunk_lines_def)
next
  case (Cons l ls)
  have "whole_chunk (l # ls) = l @ 0x0A # whole_chunk ls" by (simp add: whole_chunk_def)
  with Cons show ?case by (simp add: chunk_lines_line)
qed

lemma line_pct_empty: "line_pct [] = None"
  by (simp add: line_pct_def)

lemma pcts_nonempty: "pcts (filter (\<lambda>l. l \<noteq> []) ls) = pcts ls"
  by (induction ls) (simp_all add: pcts_def line_pct_empty)

lemma pcts_whole:
  "whole_lines lss \<Longrightarrow> pcts (stdout_lines (map whole_chunk lss)) = pcts (concat lss)"
proof (induction lss)
  case Nil
  then show ?case by (simp add: stdout_lines_def)
next
  case (Cons ls lss)
  then have "list_all (\<lambda>l. 0x0A \<notin> set l) ls" and "whole_lines lss"
    by (simp_all add: whole_lines_def)
  with Cons.IH have "pcts (stdout_lines (map whole_chunk (ls # lss)))
      = pcts (filter (\<lambda>l. l \<noteq> []) ls) @ pcts (concat lss)"
    using stdout_lines_append [of "[whole_chunk ls]" "map whole_chunk lss"]
    by (simp add: pcts_append chunk_lines_whole stdout_lines_def)
  then show ?case by (simp add: pcts_nonempty pcts_append)
qed

lemma feed_whole:
  assumes "r i = Some new_job" and "whole_lines lss"
  shows "feed i r (map whole_chunk lss) i
           = Some (new_job\<lparr>progress := last (0 # pcts (concat lss))\<rparr>)"
proof -
  have "status new_job = Processing" and "progress new_job = 0"
    by (simp_all add: new_job_def)
  with assms(1) have "feed i r (map whole_chunk lss) i
      = Some (new_job\<lparr>progress := last (0 # pcts (stdout_lines (map whole_chunk lss)))\<rparr>)"
    using last_write_wins [of r i new_job "stdout_lines (map whole_chunk lss)"]
    by (simp add: feed_lines)
  with assms(2) show ?thesis by (simp add: pcts_whole)
qed

subsection \<open>Hexadecimal text and the stored payload\<close>

lemma unat_hex_digit:
  "n < 16 \<Longrightarrow> unat (hex_digit n) = (if n < 10 then 48 + n else 87 + n)"
proof -
  have small: "unat (of_nat m :: jschar) = m" if "m < 65536" for m
    using that by (simp add: unat_of_nat)
  assume "n < 16"
  then have "unat (of_nat (48 + n) :: jschar) = 48 + n"
    and "unat (of_nat (87 + n) :: jschar) = 87 + n"
    by (simp_all only: small)
  then show ?thesis
    unfolding hex_digit_def by (simp only: if_distrib [of unat] cong: if_cong)
qed

lemma hex_val_digit: "n < 16 \<Longrightarrow> hex_val (hex_digit n) = Some n"
  by (simp add: hex_val_def word_le_nat_alt unat_hex_digit)

lemma hex_digit_not_colon: "n < 16 \<Longrightarrow> hex_digit n \<noteq> 0x3A"
proof
  assume "n < 16" and "hex_digit n = 0x3A"
  then have "unat (hex_digit n) = 58" by simp
  with \<open>n < 16\<close> show False by (simp add: unat_hex_digit split: if_splits)
qed

lemma byte_nibbles: "(of_nat (16 * (unat b div 16) + unat b mod 16) :: byte) = b"
  by simp

lemma nibbles_less: "unat (b :: byte) div 16 < 16" "unat b mod 16 < 16"
proof -
  have "unat b < 256" using unsigned_less [of b, where 'a = nat] by simp
  then show "unat b div 16 < 16" by simp
  show "unat b mod 16 < 16" by simp
qed

lemma toHex_Cons:
  "toHex (b # bs) = hex_digit (unat b div 16) # hex_digit (unat b mod 16) # toHex bs"
  by (simp add: toHex_def)

lemma fromHex_toHex: "fromHex (toHex bs) = bs"
proof (induction bs)
  case Nil
  then show ?case by (simp add: toHex_def)
next
  case (Cons b bs)
  have "fromHex (toHex (b # bs)) = of_nat (16 * (unat b div 16) + unat b mod 16) # fromHex (toHex bs)"
    by (simp only: toHex_Cons fromHex.simps hex_val_digit nibbles_less option.case)
  with Cons show ?case by (simp only: byte_nibbles)
qed

lemma colon_notin_toHex: "0x3A \<notin> set (toHex bs)"
proof (induction bs)
  case Nil
  then show ?case by (simp add: toHex_def)
next
  case (Cons b bs)
  from hex_digit_not_colon [OF nibbles_less(1) [of b]] hex_digit_not_colon [OF nibbles_less(2) [of b]] Cons
  show ?case
    by (simp only: toHex_Cons set_simps insert_iff) metis
qed

lemma split_on_none: "sep \<notin> set ys \<Longrightarrow> split_on sep cur ys = [cur @ ys]"
  by (induction ys arbitrary: cur) auto

lemma split_on_first:
  "sep \<notin> set xs \<Longrightarrow> split_on sep cur (xs @ sep # ys) = (cur @ xs) # split_on sep [] ys"
  by (induction xs arbitrary: cur) auto

lemma split_payload: "split_on 0x3A [] (toHex a @ [0x3A] @ toHex b) = [toHex a, toHex b]"
  using split_on_first [of "0x3A" "toHex a" "[]" "toHex b"]
    split_on_none [of "0x3A" "toHex b" "[]"] colon_notin_toHex [of a] colon_notin_toHex [of b]
  by simp

lemma decrypt_encrypt:
  assumes "\<And>k v m. aes_decrypt cr k v (aes_encrypt cr k v m) = Some m"
    and "utf8_decode cr (utf8_encode cr text) = text"
  shows "decrypt cr secret (encrypt cr secret iv text) = Inr text"
  using assms
  by (simp only: decrypt_def encrypt_def Let_def split_payload fromHex_toHex list.case
      option.case)

lemma encrypt_nonempty: "encrypt cr secret iv text \<noteq> []"
  by (simp add: encrypt_def Let_def)

lemma setKey_getKey_roundtrip:
  assumes "\<And>k v m. aes_decrypt cr k v (aes_encrypt cr k v m) = Some m"
    and "utf8_decode cr (utf8_encode cr apiKey) = apiKey"
    and "provider \<noteq> js ''__proto__''"
  shows "getKey cr secret provider False (setKey cr secret iv provider apiKey ks)
           = Inr (Some apiKey)"
  using assms(3) decrypt_encrypt [OF assms(1,2)]
  by (simp add: getKey_def setKey_def set_prop_def get_prop_def encrypt_nonempty)

subsection \<open>Masking\<close>

lemma mask_short: "length s \<le> 4 \<Longrightarrow> mask s = s"
  by (induction s) auto

lemma length_mask: "length (mask s) = length s"
  by (induction s) auto

lemma mask_long:
  "list_all (\<lambda>x. \<not> is_line_terminator x) s \<Longrightarrow>
     mask s = replicate (length s - 4) 0x2A @ drop (length s - 4) s"
proof (induction s)
  case Nil
  then show ?case by simp
next
  case (Cons c cs)
  show ?case
  proof (cases "4 \<le> length cs")
    case True
    then have "Suc (length cs) - 4 = Suc (length cs - 4)" by simp
    moreover from Cons.prems have "list_all (\<lambda>x. \<not> is_line_terminator x) (take 4 cs)"
      by (auto simp: list_all_iff dest: in_set_takeD)
    ultimately show ?thesis using Cons True by simp
  next
    case False
    then have "mask cs = cs" by (simp add: mask_short)
    with False show ?thesis by simp
  qed
qed

section \<open>The claims\<close>

lemma run_done:
  "jobs (run [Post local_env ok_world (Some wav_upload),
       Stdout (js ''job-1'') (js ''PROGRESS 50'' @ [0x0A]),
       Close (js ''job-1'') (Some 0) (Inr (js ''done text'' @ [0x0A]))]) (js ''job-1'')
     = Some done_job"
  by (simp add: eval_simps done_job_def)

text \<open>
  Claim C1. A request that is accepted in local mode registers a job with status
  \<open>processing\<close> and progress 0. The \<open>data\<close> handler changes nothing in a registry
  where its job is \<open>done\<close> or \<open>error\<close>. In every run of the server in which
  \<open>randomUUID\<close> gives fresh identifiers, a job that is \<open>done\<close> or \<open>error\<close> after some
  events is the same job, field for field, after any further events.
\<close>

theorem job_terminal_states:
  "(fst (post_transcribe e w up s) = Accepted i \<longrightarrow>
      jobs (step s (Post e w up)) i = Some new_job \<and>
      status new_job = Processing \<and> progress new_job = 0) \<and>
   (r i = Some j \<and> status j \<noteq> Processing \<longrightarrow> on_stdout i d r = r) \<and>
   (fresh_ids (evs1 @ evs2) \<and> jobs (run evs1) i = Some j \<and> status j \<noteq> Processing \<longrightarrow>
      jobs (run (evs1 @ evs2)) i = Some j)"
proof (intro conjI impI)
  assume "fst (post_transcribe e w up s) = Accepted i"
  then show "jobs (step s (Post e w up)) i = Some new_job"
    by (auto simp: post_transcribe_def Let_def split: option.splits sum.splits if_splits)
next
  show "status new_job = Processing" and "progress new_job = 0"
    by (simp_all add: new_job_def)
next
  assume "r i = Some j \<and> status j \<noteq> Processing"
  then show "on_stdout i d r = r" by (simp add: on_stdout_terminal)
next
  assume "fresh_ids (evs1 @ evs2) \<and> jobs (run evs1) i = Some j \<and> status j \<noteq> Processing"
  then show "jobs (run (evs1 @ evs2)) i = Some j" by (simp add: terminal_forever)
qed

theorem job_terminal_states_witness:
  "fst (post_transcribe local_env ok_world (Some wav_upload) start) = Accepted (js ''job-1'') \<and>
   jobs (step start (Post local_env ok_world (Some wav_upload))) (js ''job-1'') = Some new_job \<and>
   jobs (run [Post local_env ok_world (Some wav_upload),
       Stdout (js ''job-1'') (js ''PROGRESS 50'' @ [0x0A]),
       Close (js ''job-1'') (Some 0) (Inr (js ''done text'' @ [0x0A]))]) (js ''job-1'')
     = Some done_job \<and>
   status done_job \<noteq> Processing \<and>
   on_stdout (js ''job-1'') (js ''PROGRESS 70'' @ [0x0A])
     (jobs (run [Post local_env ok_world (Some wav_upload),
       Stdout (js ''job-1'') (js ''PROGRESS 50'' @ [0x0A]),
       Close (js ''job-1'') (Some 0) (Inr (js ''done text'' @ [0x0A]))]))
     = jobs (run [Post local_env ok_world (Some wav_upload),
       Stdout (js ''job-1'') (js ''PROGRESS 50'' @ [0x0A]),
       Close (js ''job-1'') (Some 0) (Inr (js ''done text'' @ [0x0A]))]) \<and>
   fresh_ids ([Post local_env ok_world (Some wav_upload),
       Stdout (js ''job-1'') (js ''PROGRESS 50'' @ [0x0A]),
       Close (js ''job-1'') (Some 0) (Inr (js ''done text'' @ [0x0A]))] @
     [Stdout (js ''job-1'') (js ''PROGRESS 70'' @ [0x0A])]) \<and>
   jobs (run ([Post local_env ok_world (Some wav_upload),
       Stdout (js ''job-1'') (js ''PROGRESS 50'' @ [0x0A]),
       Close (js ''job-1'') (Some 0) (Inr (js ''done text'' @ [0x0A]))] @
     [Stdout (js ''job-1'') (js ''PROGRESS 70'' @ [0x0A])])) (js ''job-1'') = Some done_job"
proof -
  let ?post = "Post local_env ok_world (Some wav_upload)"
  let ?evs1 = "[?post, Stdout (js ''job-1'') (js ''PROGRESS 50'' @ [0x0A]),
       Close (js ''job-1'') (Some 0) (Inr (js ''done text'' @ [0x0A]))]"
  let ?evs2 = "[Stdout (js ''job-1'') (js ''PROGRESS 70'' @ [0x0A])]"
  have acc: "fst (post_transcribe local_env ok_world (Some wav_upload) start) = Accepted (js ''job-1'')"
    by (simp add: eval_simps)
  have at: "jobs (run ?evs1) (js ''job-1'') = Some done_job" by (rule run_done)
  have fin: "status done_job \<noteq> Processing" by (simp add: done_job_def)
  have fresh: "fresh_ids (?evs1 @ ?evs2)" by (simp add: fresh_ids_def eval_simps)
  note T = job_terminal_states [where e = local_env and w = ok_world
      and up = "Some wav_upload" and s = start and i = "js ''job-1''"
      and r = "jobs (run ?evs1)" and j = done_job
      and d = "js ''PROGRESS 70'' @ [0x0A]" and ?evs1.0 = ?evs1 and ?evs2.0 = ?evs2]
  from T acc have 1: "jobs (step start ?post) (js ''job-1'') = Some new_job" by blast
  from T at fin have 2: "on_stdout (js ''job-1'') (js ''PROGRESS 70'' @ [0x0A]) (jobs (run ?evs1))
      = jobs (run ?evs1)" by blast
  from T fresh at fin have 3: "jobs (run (?evs1 @ ?evs2)) (js ''job-1'') = Some done_job" by blast
  from acc 1 at fin 2 fresh 3 show ?thesis by blast
qed

text \<open>
  Claim C7. The progress of a job is an integer between 0 and 100 in every reachable
  state of the server: a new job has progress 0, the value taken from a line that matches
  \<open>PROGRESS <int>\<close> is between 0 and 100, and a job that is \<open>done\<close> has progress
  exactly 100.
\<close>

theorem progress_in_range:
  "progress new_job = 0 \<and>
   (line_pct l = Some p \<longrightarrow> 0 \<le> p \<and> p \<le> 100) \<and>
   (jobs (run evs) i = Some j \<longrightarrow>
      0 \<le> progress j \<and> progress j \<le> 100 \<and> (status j = Done \<longrightarrow> progress j = 100))"
proof (intro conjI impI)
  show "progress new_job = 0" by (simp add: new_job_def)
next
  assume "line_pct l = Some p"
  then show "0 \<le> p" and "p \<le> 100" using line_pct_range by blast+
next
  assume at: "jobs (run evs) i = Some j"
  with run_ok [of evs] have ok: "job_ok j" by (auto simp: reg_ok_def)
  then show "0 \<le> progress j" and "progress j \<le> 100" by (simp_all add: job_ok_def)
  assume "status j = Done"
  with ok show "progress j = 100" by (simp add: job_ok_def)
qed

theorem progress_in_range_witness:
  "line_pct (js ''PROGRESS 250'') = Some 100 \<and> (0::int) \<le> 100 \<and> (100::int) \<le> 100 \<and>
   jobs (run [Post local_env ok_world (Some wav_upload),
       Stdout (js ''job-1'') (js ''PROGRESS 50'' @ [0x0A]),
       Close (js ''job-1'') (Some 0) (Inr (js ''done text'' @ [0x0A]))]) (js ''job-1'')
     = Some done_job \<and>
   0 \<le> progress done_job \<and> progress done_job \<le> 100 \<and>
   status done_job = Done \<and> progress done_job = 100"
proof -
  let ?evs = "[Post local_env ok_world (Some wav_upload),
       Stdout (js ''job-1'') (js ''PROGRESS 50'' @ [0x0A]),
       Close (js ''job-1'') (Some 0) (Inr (js ''done text'' @ [0x0A]))]"
  have l: "line_pct (js ''PROGRESS 250'') = Some 100" by (simp add: eval_simps)
  have at: "jobs (run ?evs) (js ''job-1'') = Some done_job" by (rule run_done)
  have fin: "status done_job = Done" by (simp add: done_job_def)
  note T = progress_in_range [where l = "js ''PROGRESS 250''" and p = 100 and evs = ?evs
      and i = "js ''job-1''" and j = done_job]
  from T l have 1: "(0::int) \<le> 100 \<and> (100::int) \<le> 100" by blast
  from T at fin have 2: "0 \<le> progress done_job \<and> progress done_job \<le> 100 \<and>
      progress done_job = 100" by blast
  from l 1 at 2 fin show ?thesis by blast
qed

lemma pcts_nonneg: "p \<in> set (pcts ls) \<Longrightarrow> 0 \<le> p"
proof -
  assume "p \<in> set (pcts ls)"
  then obtain l where "line_pct l = Some p"
    by (auto simp: pcts_def split: option.splits)
  then show "0 \<le> p" using line_pct_range by blast
qed

lemma sorted_from_zero: "sorted (pcts ls) \<Longrightarrow> sorted (0 # pcts ls)"
  by (simp add: pcts_nonneg)

lemma split_line_lowers_progress:
  "map_option progress (jobs (run [Post local_env ok_world (Some wav_upload),
      Stdout (js ''job-1'') (js ''PROGRESS 40'' @ [0x0A] @ js ''PROGRESS 5''),
      Stdout (js ''job-1'') (js ''0'' @ [0x0A])]) (js ''job-1'')) = Some 5"
  by (simp add: eval_simps)

text \<open>
  Claim C2, as stated, fails: the handler stores the percentage of each matching line as it
  comes, so a child that prints \<open>PROGRESS 50\<close> and then \<open>PROGRESS 30\<close> takes the
  progress of its job from 50 down to 30 while the job is still processing.
\<close>

theorem progress_can_decrease:
  "map_option progress (jobs (run [Post local_env ok_world (Some wav_upload),
      Stdout (js ''job-1'') (js ''PROGRESS 50'' @ [0x0A])]) (js ''job-1'')) = Some 50 \<and>
   map_option status (jobs (run [Post local_env ok_world (Some wav_upload),
      Stdout (js ''job-1'') (js ''PROGRESS 50'' @ [0x0A])]) (js ''job-1'')) = Some Processing \<and>
   map_option progress (jobs (run [Post local_env ok_world (Some wav_upload),
      Stdout (js ''job-1'') (js ''PROGRESS 50'' @ [0x0A]),
      Stdout (js ''job-1'') (js ''PROGRESS 30'' @ [0x0A])]) (js ''job-1'')) = Some 30 \<and>
   map_option status (jobs (run [Post local_env ok_world (Some wav_upload),
      Stdout (js ''job-1'') (js ''PROGRESS 50'' @ [0x0A]),
      Stdout (js ''job-1'') (js ''PROGRESS 30'' @ [0x0A])]) (js ''job-1'')) = Some Processing"
  by (simp add: eval_simps)

text \<open>
  Claim C2, amended. When the lines of the child reach the handler whole, the progress of
  a job that is processing is, after any of them, the percentage of the last line that
  matched (0 when none has): a later line with a smaller percentage lowers it, and when
  the percentages of the matching lines never decrease, the progress after some of the
  lines is at most the progress after more of them.
\<close>

theorem progress_is_last_whole_line:
  assumes "r i = Some new_job" and "whole_lines (lss1 @ lss2)"
  shows "\<exists>j1 j2.
           feed i r (map whole_chunk lss1) i = Some j1 \<and>
           feed i r (map whole_chunk (lss1 @ lss2)) i = Some j2 \<and>
           status j1 = Processing \<and> status j2 = Processing \<and>
           progress j1 = last (0 # pcts (concat lss1)) \<and>
           progress j2 = last (0 # pcts (concat (lss1 @ lss2))) \<and>
           (sorted (pcts (concat (lss1 @ lss2))) \<longrightarrow> progress j1 \<le> progress j2)"
proof -
  let ?xs = "pcts (concat lss1)" and ?ys = "pcts (concat lss2)"
  from assms(2) have w1: "whole_lines lss1" by (simp add: whole_lines_def)
  have new: "status new_job = Processing" by (simp add: new_job_def)
  have 1: "feed i r (map whole_chunk lss1) i = Some (new_job\<lparr>progress := last (0 # ?xs)\<rparr>)"
    using assms(1) w1 by (rule feed_whole)
  have 2: "feed i r (map whole_chunk (lss1 @ lss2)) i
      = Some (new_job\<lparr>progress := last (0 # pcts (concat (lss1 @ lss2)))\<rparr>)"
    using assms by (rule feed_whole)
  have 3: "last (0 # ?xs) \<le> last (0 # pcts (concat (lss1 @ lss2)))"
    if "sorted (pcts (concat (lss1 @ lss2)))"
  proof -
    from that have "sorted (0 # ?xs @ ?ys)"
      using sorted_from_zero [of "concat (lss1 @ lss2)"] by (simp add: pcts_append)
    then have "last (0 # ?xs) \<le> last (0 # ?xs @ ?ys)" by (rule sorted_last_prefix)
    then show ?thesis by (simp add: pcts_append)
  qed
  from 1 2 3 new show ?thesis by simp
qed

theorem progress_is_last_whole_line_witness:
  "[js ''job-1'' \<mapsto> new_job] (js ''job-1'') = Some new_job \<and>
   whole_lines ([[js ''PROGRESS 50'']] @ [[js ''PROGRESS 30'']]) \<and>
   map_option progress
     (feed (js ''job-1'') [js ''job-1'' \<mapsto> new_job]
        (map whole_chunk [[js ''PROGRESS 50'']]) (js ''job-1'')) = Some 50 \<and>
   map_option progress
     (feed (js ''job-1'') [js ''job-1'' \<mapsto> new_job]
        (map whole_chunk ([[js ''PROGRESS 50'']] @ [[js ''PROGRESS 30'']])) (js ''job-1''))
     = Some 30 \<and>
   whole_lines ([[js ''PROGRESS 10'', js ''loading'', js ''PROGRESS 20'']] @
      [[js ''PROGRESS 20''], [js ''PROGRESS 100'']]) \<and>
   sorted (pcts (concat ([[js ''PROGRESS 10'', js ''loading'', js ''PROGRESS 20'']] @
      [[js ''PROGRESS 20''], [js ''PROGRESS 100'']]))) \<and>
   (\<exists>j1 j2.
      feed (js ''job-1'') [js ''job-1'' \<mapsto> new_job]
        (map whole_chunk [[js ''PROGRESS 10'', js ''loading'', js ''PROGRESS 20'']])
        (js ''job-1'') = Some j1 \<and>
      feed (js ''job-1'') [js ''job-1'' \<mapsto> new_job]
        (map whole_chunk ([[js ''PROGRESS 10'', js ''loading'', js ''PROGRESS 20'']] @
           [[js ''PROGRESS 20''], [js ''PROGRESS 100'']]))
        (js ''job-1'') = Some j2 \<and>
      status j2 = Processing \<and> progress j1 \<le> progress j2)"
proof -
  let ?r = "[js ''job-1'' \<mapsto> new_job]"
  let ?a1 = "[[js ''PROGRESS 50'']]" and ?a2 = "[[js ''PROGRESS 30'']]"
  let ?b1 = "[[js ''PROGRESS 10'', js ''loading'', js ''PROGRESS 20'']]"
  let ?b2 = "[[js ''PROGRESS 20''], [js ''PROGRESS 100'']]"
  have at: "?r (js ''job-1'') = Some new_job" by simp
  have wa: "whole_lines (?a1 @ ?a2)" by (simp add: whole_lines_def js_def)
  have wb: "whole_lines (?b1 @ ?b2)" by (simp add: whole_lines_def js_def)
  have pa1: "last (0 # pcts (concat ?a1)) = 50"
    by (simp add: pcts_def eval_simps)
  have pa: "last (0 # pcts (concat (?a1 @ ?a2))) = 30"
    by (simp add: pcts_def eval_simps)
  have srt: "sorted (pcts (concat (?b1 @ ?b2)))"
    by (simp add: pcts_def eval_simps)
  note A = progress_is_last_whole_line [where r = ?r and i = "js ''job-1''"
      and ?lss1.0 = ?a1 and ?lss2.0 = ?a2, OF at wa]
  note B = progress_is_last_whole_line [where r = ?r and i = "js ''job-1''"
      and ?lss1.0 = ?b1 and ?lss2.0 = ?b2, OF at wb]
  from A pa1 have a1: "map_option progress (feed (js ''job-1'') ?r (map whole_chunk ?a1)
      (js ''job-1'')) = Some 50" by auto
  from A pa have a2: "map_option progress (feed (js ''job-1'') ?r (map whole_chunk (?a1 @ ?a2))
      (js ''job-1'')) = Some 30" by auto
  from B srt have b: "\<exists>j1 j2.
      feed (js ''job-1'') ?r (map whole_chunk ?b1) (js ''job-1'') = Some j1 \<and>
      feed (js ''job-1'') ?r (map whole_chunk (?b1 @ ?b2)) (js ''job-1'') = Some j2 \<and>
      status j2 = Processing \<and> progress j1 \<le> progress j2" by blast
  from at wa a1 a2 wb srt b show ?thesis by blast
qed

lemma setKey_getKey_shift_cipher:
  "getKey shift_cipher (js ''dev-secret'') (js ''openai'') False
     (setKey shift_cipher (js ''dev-secret'') [7] (js ''openai'') (js ''sk-1'') Map.empty)
     = Inr (Some (js ''sk-1''))"
proof (rule setKey_getKey_roundtrip)
  show "aes_decrypt shift_cipher k v (aes_encrypt shift_cipher k v m) = Some m" for k v m
    by (simp add: shift_cipher_def comp_def)
  show "utf8_decode shift_cipher (utf8_encode shift_cipher (js ''sk-1'')) = js ''sk-1''"
    by (simp add: shift_cipher_def js_def)
  show "js ''openai'' \<noteq> js ''__proto__''" by (simp add: js_def)
qed

text \<open>
  Claim C3 at the provider \<open>__proto__\<close>: the assignment in \<open>setKey\<close> stores nothing,
  and \<open>getKey\<close> then reads \<open>Object.prototype\<close> and fails in \<open>decrypt\<close> instead of
  giving the key back. (For every other provider the key comes back, lemma
  \<open>setKey_getKey_roundtrip\<close>, when the cipher and the codec invert.)
\<close>

theorem proto_provider_is_lost:
  "setKey cr secret iv (js ''__proto__'') (js ''sk-test'') Map.empty = Map.empty \<and>
   getKey cr secret (js ''__proto__'') False
     (setKey cr secret iv (js ''__proto__'') (js ''sk-test'') Map.empty) = Inl TypeError"
  by (simp add: setKey_def set_prop_def getKey_def get_prop_def object_prototype_def)

lemma child_events_create_nothing:
  "concat (map created (filter is_child_event evs)) = []"
proof (induction evs)
  case Nil
  then show ?case by simp
next
  case (Cons ev evs)
  then show ?case by (cases ev) simp_all
qed

lemma close_records_failure:
  assumes "r i = Some j" and "code \<noteq> Some 0 \<or> rd = Inl msg"
  shows "\<exists>j'. on_close i err code rd r i = Some j' \<and> status j' = Error \<and> error j' \<noteq> None"
  using assms by (auto simp: on_close_def)

lemma close_records_success:
  assumes "r i = Some j"
  shows "on_close i err (Some 0) (Inr text) r i =
           Some (j\<lparr>status := Done, progress := 100, result := Some (trim text)\<rparr>)"
  using assms by (simp add: on_close_def)

text \<open>
  Claim C4 where \<open>writeFile\<close> fails in local mode: the client has its job identifier, no
  child is spawned, and the job keeps status \<open>processing\<close> and error \<open>null\<close> whatever
  events of child processes follow.
\<close>

theorem write_failure_not_recorded:
  "post_transcribe local_env full_disk (Some wav_upload) start =
     (Accepted (js ''job-1''),
      [WriteFile (InPath (js ''job-1'') (js ''a.wav'')) [0x52, 0x49, 0x46, 0x46]],
      \<lparr>jobs = [js ''job-1'' \<mapsto> new_job], procs = Map.empty\<rparr>) \<and>
   jobs (foldl step (step start (Post local_env full_disk (Some wav_upload)))
          (filter is_child_event evs)) (js ''job-1'') = Some new_job \<and>
   status new_job = Processing \<and> error new_job = None"
proof -
  have ev: "post_transcribe local_env full_disk (Some wav_upload) start =
     (Accepted (js ''job-1''),
      [WriteFile (InPath (js ''job-1'') (js ''a.wav'')) [0x52, 0x49, 0x46, 0x46]],
      \<lparr>jobs = [js ''job-1'' \<mapsto> new_job], procs = Map.empty\<rparr>)"
    by (simp add: eval_simps)
  let ?s = "step start (Post local_env full_disk (Some wav_upload))"
  from ev have "jobs ?s (js ''job-1'') = Some new_job" and "procs ?s (js ''job-1'') = None"
    by simp_all
  then have "jobs (foldl step ?s (filter is_child_event evs)) (js ''job-1'') = Some new_job"
    using foldl_step_settled [of ?s "js ''job-1''" new_job "filter is_child_event evs"]
    by (simp only: child_events_create_nothing list.set empty_iff not_False_eq_True)
  with ev show ?thesis by (simp add: new_job_def)
qed

lemma successful_run_unlinks_both:
  assumes "lw_write_error w = None" and "exit_code w = Some 0"
  shows "Unlink (AudioPath (now_audio w) name) (unlink_audio_ok w)
           \<in> set (snd (transcribeLocal e w buf name))"
    and "Unlink (TransPath (now_out w)) (unlink_out_ok w)
           \<in> set (snd (transcribeLocal e w buf name))"
    and "fst (transcribeLocal e (w\<lparr>unlink_audio_ok := a, unlink_out_ok := b\<rparr>) buf name)
           = fst (transcribeLocal e w buf name)"
  using assms by (simp_all add: transcribeLocal_def Let_def)

lemma failed_run_never_unlinks:
  assumes "exit_code w \<noteq> Some 0"
  shows "Unlink p ok \<notin> set (snd (transcribeLocal e w buf name))"
  using assms by (simp add: transcribeLocal_def Let_def split: option.splits)

text \<open>
  Claim C5 where the child exits with code 1: \<open>transcribeLocal\<close> throws the text of the
  standard error after writing the audio file and spawning the child; it neither reads
  the output nor unlinks either temporary file.
\<close>

theorem failed_run_keeps_temporary_files:
  "transcribeLocal local_env exit_one buf name =
     (Inl (js ''boom''),
      [WriteFile (AudioPath 1000 name) buf,
       Spawn (js ''python'')
         [Lit (js ''-u''), Script, Tmp (AudioPath 1000 name), Tmp (TransPath 1001),
          Lit (js ''large-v3-turbo''), Lit (js ''cpu''), Lit (js ''int8'')]])"
  by (simp add: transcribeLocal_def exit_one_def local_env_def spawn_args_def or_default_def
      js_def Let_def)

lemma getKey_masked:
  "getKey cr secret p True ks =
     (case getKey cr secret p False ks of
        Inr (Some key) \<Rightarrow> Inr (Some (mask key))
      | other \<Rightarrow> other)"
  by (simp add: getKey_def split: jsval.splits sum.splits)

text \<open>
  Claim C6 at a key that ends with a line feed: the masked result of \<open>getKey\<close> is
  \<open>mask\<close> of the key, and of the ten code units of \<open>sk-abc123\<close> followed by a line
  feed only the first five are replaced, so the sixth, which is not among the last four,
  is shown. (Without line terminators all but the last four are replaced, lemma
  \<open>getKey_masked_long\<close>.)
\<close>

theorem mask_shows_more_before_line_feed:
  "getKey cr secret p True ks =
     (case getKey cr secret p False ks of
        Inr (Some key) \<Rightarrow> Inr (Some (mask key))
      | other \<Rightarrow> other) \<and>
   mask (js ''sk-abc123'' @ [0x0A]) = js ''*****c123'' @ [0x0A]"
  by (simp add: getKey_masked) (simp add: js_def is_line_terminator_def)

lemma getKey_masked_long:
  assumes "getKey cr secret p False ks = Inr (Some key)"
    and "list_all (\<lambda>x. \<not> is_line_terminator x) key"
  shows "getKey cr secret p True ks =
           Inr (Some (replicate (length key - 4) 0x2A @ drop (length key - 4) key))"
  using assms by (simp add: getKey_masked mask_long)

text \<open>
  Claim C8. An upload whose MIME type is not one of the six allowed gets the answer 400
  with no action (no transcription call, no file, no child) and an unchanged state (no
  job), whatever the mode and the state.
\<close>

theorem bad_mime_rejected:
  "mimetype f \<notin> set okMimes \<Longrightarrow>
     post_transcribe e w (Some f) s = (BadRequest only_mp3_wav, [], s)"
  by (simp add: post_transcribe_def)

theorem bad_mime_rejected_witness:
  "mimetype ogg_upload \<notin> set okMimes \<and>
   post_transcribe local_env ok_world (Some ogg_upload) start
     = (BadRequest only_mp3_wav, [], start)"
proof -
  have h: "mimetype ogg_upload \<notin> set okMimes"
    by (simp add: ogg_upload_def okMimes_def js_def)
  from bad_mime_rejected [OF h, of local_env ok_world start] h show ?thesis by blast
qed

text \<open>
  Claim C9. When the key \<open>getKey\<close> gives unmasked has at most four code units, the
  masked call gives the same key.
\<close>

theorem short_key_unmasked:
  "getKey cr secret p False ks = Inr (Some key) \<Longrightarrow> length key \<le> 4 \<Longrightarrow>
     getKey cr secret p True ks = Inr (Some key)"
  by (simp add: getKey_masked mask_short)

theorem short_key_unmasked_witness:
  "getKey shift_cipher (js ''dev-secret'') (js ''openai'') False
     (setKey shift_cipher (js ''dev-secret'') [1, 2, 3] (js ''openai'') (js ''abcd'') Map.empty)
     = Inr (Some (js ''abcd'')) \<and>
   length (js ''abcd'') \<le> 4 \<and>
   getKey shift_cipher (js ''dev-secret'') (js ''openai'') True
     (setKey shift_cipher (js ''dev-secret'') [1, 2, 3] (js ''openai'') (js ''abcd'') Map.empty)
     = Inr (Some (js ''abcd''))"
proof -
  let ?ks = "setKey shift_cipher (js ''dev-secret'') [1, 2, 3] (js ''openai'') (js ''abcd'')
     Map.empty"
  have h: "getKey shift_cipher (js ''dev-secret'') (js ''openai'') False ?ks
      = Inr (Some (js ''abcd''))"
    by (simp add: getKey_def setKey_def set_prop_def get_prop_def encrypt_def decrypt_def
        shift_cipher_def js_def toHex_def hex_digit_def hex_val_def Let_def)
  have l: "length (js ''abcd'') \<le> 4" by (simp add: js_def)
  from short_key_unmasked [OF h l] h l show ?thesis by blast
qed

text \<open>
  Claim C10. When the audio file was written, the child exited with code 0 and reading
  the output file fails, \<open>transcribeLocal\<close> returns the empty string.
\<close>

theorem unreadable_output_gives_empty:
  "lw_write_error w = None \<Longrightarrow> exit_code w = Some 0 \<Longrightarrow> read_result w = Inl msg \<Longrightarrow>
     fst (transcribeLocal e w buf name) = Inr []"
  by (simp add: transcribeLocal_def Let_def trim_def)

theorem unreadable_output_gives_empty_witness:
  "lw_write_error no_output = None \<and> exit_code no_output = Some 0 \<and>
   read_result no_output = Inl (js ''ENOENT'') \<and>
   fst (transcribeLocal local_env no_output [0x52, 0x49] (js ''a.wav'')) = Inr []"
proof -
  have h: "lw_write_error no_output = None" "exit_code no_output = Some 0"
    "read_result no_output = Inl (js ''ENOENT'')"
    by (simp_all add: no_output_def)
  from unreadable_output_gives_empty [OF h, of local_env "[0x52, 0x49]" "js ''a.wav''"] h
  show ?thesis by blast
qed

end
